theory Spec2Isabelle
  imports Complex_Main "HOL-Library.Log_Nat"
begin

section \<open>Data model\<close>

text \<open>
  A Python \<open>str\<close> is a sequence of Unicode code points; \<open>len\<close> counts code points and
  \<open>chr(key)\<close> is defined for every key below \<open>0x110000\<close>, so a character is its code
  point and a string is a list of them. \<open>ustr\<close> turns an ASCII literal into that form.
\<close>

type_synonym str = "nat list"

definition ustr :: "string \<Rightarrow> str" where
  "ustr s = map of_char s"

datatype error = IndexError | ZeroDivisionError | ValueError | OSError

text \<open>
  The parsed command line. \<open>vocab\<close> stands for the file at \<open>args.vocab\<close>: the list of
  its lines as iteration over the open file yields them, or \<open>None\<close> when \<open>open\<close> fails.
\<close>

record args =
  vocab :: "str list option"
  args_game_time :: int
  min_length :: int
  max_length :: int
  words :: int

text \<open>
  The \<open>Game\<close> object. \<open>gen_words\<close> is the local list \<open>words\<close> held by the running
  generator \<open>self.word_generator\<close>. \<open>random.choice\<close> reads the ambient random source:
  \<open>rand\<close> is the sequence of numbers it will deliver and \<open>drawn\<close> counts the draws made.
\<close>

record game =
  gen_words :: "str list"
  rand :: "nat \<Rightarrow> nat"
  drawn :: nat
  game_time :: int
  next_words :: "str list"
  correct :: "str list"
  wrong :: "str list"
  input :: str

definition CHARS_PER_WORD :: nat where
  "CHARS_PER_WORD = 5"

definition QUEUE_SIZE :: nat where
  "QUEUE_SIZE = 10"

section \<open>Word supply\<close>

text \<open>
  \<open>str.strip()\<close> without argument removes leading and trailing characters for which
  \<open>str.isspace\<close> holds.
\<close>

definition is_space :: "nat \<Rightarrow> bool" where
  "is_space c \<longleftrightarrow>
     (9 \<le> c \<and> c \<le> 13) \<or> (28 \<le> c \<and> c \<le> 32) \<or> c = 133 \<or> c = 160 \<or> c = 5760 \<or>
     (8192 \<le> c \<and> c \<le> 8202) \<or> c = 8232 \<or> c = 8233 \<or> c = 8239 \<or> c = 8287 \<or> c = 12288"

definition strip :: "str \<Rightarrow> str" where
  "strip s = rev (dropWhile is_space (rev (dropWhile is_space s)))"

text \<open>
  The \<open>for line in open(args.vocab)\<close> loop of \<open>_word_generator\<close>: \<open>ws\<close> is the list
  \<open>words\<close> built so far. The \<open>break\<close> test comes after the append, in every iteration.
\<close>

fun read_words :: "args \<Rightarrow> str list \<Rightarrow> str list \<Rightarrow> str list" where
  "read_words a [] ws = ws"
| "read_words a (line # rest) ws =
     (let word = strip line;
          ws' = (if min_length a \<le> int (length word) \<and> int (length word) \<le> max_length a
                 then ws @ [word] else ws)
      in if words a \<le> int (length ws') then ws' else read_words a rest ws')"

text \<open>
  The part of \<open>_word_generator\<close> before \<open>while True\<close>: the vocabulary the generator draws
  from. The generator body starts at the first \<open>next\<close>, which \<open>__init__\<close> issues at once.
\<close>

definition word_generator :: "args \<Rightarrow> error + str list" where
  "word_generator a =
     (case vocab a of
        None \<Rightarrow> Inl OSError
      | Some lines \<Rightarrow> Inr (read_words a lines []))"

text \<open>
  \<open>random.choice(words)\<close> raises \<open>IndexError\<close> on an empty sequence and returns one of
  the elements otherwise; every element can be returned, for a suitable random number.
\<close>

definition choice :: "nat \<Rightarrow> str list \<Rightarrow> error + str" where
  "choice r ws = (if ws = [] then Inl IndexError else Inr (ws ! (r mod length ws)))"

definition get_word :: "game \<Rightarrow> error + (str \<times> game)" where
  "get_word g =
     (case choice (rand g (drawn g)) (gen_words g) of
        Inl e \<Rightarrow> Inl e
      | Inr w \<Rightarrow> Inr (w, g\<lparr>drawn := Suc (drawn g)\<rparr>))"

text \<open>The comprehension \<open>[self._get_word() for _ in range(n)]\<close>.\<close>

fun get_words :: "nat \<Rightarrow> game \<Rightarrow> error + (str list \<times> game)" where
  "get_words 0 g = Inr ([], g)"
| "get_words (Suc n) g =
     (case get_word g of
        Inl e \<Rightarrow> Inl e
      | Inr (w, g1) \<Rightarrow>
          (case get_words n g1 of
             Inl e \<Rightarrow> Inl e
           | Inr (ws, g2) \<Rightarrow> Inr (w # ws, g2)))"

text \<open>\<open>Game.__init__\<close>, for a random source \<open>r\<close>.\<close>

definition Game_init :: "args \<Rightarrow> (nat \<Rightarrow> nat) \<Rightarrow> error + game" where
  "Game_init a r =
     (case word_generator a of
        Inl e \<Rightarrow> Inl e
      | Inr ws \<Rightarrow>
          (let g = \<lparr>gen_words = ws, rand = r, drawn = 0, game_time = args_game_time a,
                    next_words = [], correct = [], wrong = [], input = []\<rparr>
           in case get_words QUEUE_SIZE g of
                Inl e \<Rightarrow> Inl e
              | Inr (nw, g') \<Rightarrow>
                  Inr (g'\<lparr>next_words := nw, correct := [], wrong := [], input := []\<rparr>)))"

section \<open>Scoring\<close>

text \<open>\<open>sep.join(ws)\<close>.\<close>

fun join :: "str \<Rightarrow> str list \<Rightarrow> str" where
  "join sep [] = []"
| "join sep [w] = w"
| "join sep (w # ws) = w @ sep @ join sep ws"

definition space :: str where
  "space = [32]"

text \<open>\<open>int(round(x))\<close>: the nearest integer, a tie going to the even neighbour.\<close>

definition py_round :: "rat \<Rightarrow> int" where
  "py_round x =
     (let f = \<lfloor>x\<rfloor>; d = x - of_int f
      in if d < 1 / 2 then f
         else if 1 / 2 < d then f + 1
         else if even f then f else f + 1)"

text \<open>
  A Python \<open>float\<close> is an IEEE 754 binary64 number; it is modelled by the rational
  it denotes. \<open>floor_log2 x\<close> is the binary exponent of a positive \<open>x\<close>, the integer
  \<open>k\<close> with \<open>2^k \<le> x < 2^(k+1)\<close>, found from the bit lengths of numerator and
  denominator. \<open>double x\<close> is \<open>x\<close> rounded to the nearest binary64 number, a tie going
  to the even significand: 53 significant bits, and multiples of \<open>2^-1074\<close> in the
  subnormal range. Every arithmetic operation on floats returns the exact result rounded
  like this. The scores here are at most 60 times a string length in magnitude,
  far below the largest binary64 number, so the overflow to infinity is left out.
\<close>

definition floor_log2 :: "rat \<Rightarrow> int" where
  "floor_log2 x =
     (let (p, q) = quotient_of x; d = bitlen p - bitlen q
      in if 2 powi d \<le> x then d else d - 1)"

definition double :: "rat \<Rightarrow> rat" where
  "double x =
     (if x = 0 then 0
      else let e = max (floor_log2 \<bar>x\<bar> - 52) (- 1074); q = 2 powi e
           in of_int (py_round (x / q)) * q)"

text \<open>
  \<open>60 / time_played\<close> divides two integers and rounds the quotient once;
  \<open>* correct_chars\<close> converts the length to a float and rounds the product;
  \<open>/ CHARS_PER_WORD\<close> converts the constant and rounds the quotient.
\<close>

definition calculate_cpm :: "game \<Rightarrow> int \<Rightarrow> rat" where
  "calculate_cpm g time_played =
     (if time_played = 0 then 0
      else let correct_chars = length (join space (correct g));
               cpm = double (double (60 / of_int time_played) * double (of_nat correct_chars))
           in cpm)"

definition calculate_wpm :: "game \<Rightarrow> int \<Rightarrow> rat" where
  "calculate_wpm g time_played =
     (if time_played = 0 then 0
      else let correct_chars = length (join space (correct g));
               wpm = double (double (double (60 / of_int time_played) *
                                     double (of_nat correct_chars)) /
                             double (of_nat CHARS_PER_WORD))
           in wpm)"

section \<open>Completing a word\<close>

text \<open>
  \<open>_finish_word_event\<close>. \<open>pop(0)\<close> raises \<open>IndexError\<close> on an empty list; the draw of
  the replacement word can raise as well.
\<close>

definition finish_word_event :: "game \<Rightarrow> error + game" where
  "finish_word_event g =
     (case next_words g of
        [] \<Rightarrow> Inl IndexError
      | target # rest \<Rightarrow>
          (let g1 = g\<lparr>next_words := rest\<rparr>;
               g2 = (if input g1 = target
                     then g1\<lparr>correct := correct g1 @ [target]\<rparr>
                     else g1\<lparr>wrong := wrong g1 @ [target]\<rparr>)
           in case get_word g2 of
                Inl e \<Rightarrow> Inl e
              | Inr (w, g3) \<Rightarrow> Inr (g3\<lparr>next_words := next_words g3 @ [w], input := []\<rparr>)))"

section \<open>Display\<close>

text \<open>
  The screen is the sequence of calls made on \<open>stdscr\<close>. \<open>Header t w\<close> is the call
  \<open>addstr(f"Time left: {t}, WPM: {w}\n")\<close>; \<open>Addstr s st\<close> writes \<open>s\<close> in style \<open>st\<close>,
  where \<open>Correct\<close> is colour pair 1 (white on green) and \<open>Incorrect\<close> is colour pair 2
  (white on red). The window is taken to be large enough for curses to accept every write.
\<close>

datatype style = Default | Correct | Incorrect

datatype draw = Clear | Header int int | Addstr str style | Refresh

text \<open>
  The loop \<open>for idx, char in enumerate(self.input)\<close>, entered at index \<open>idx\<close> with the
  characters of the input still to come. \<open>target[idx]\<close> raises past the end of \<open>target\<close>.
\<close>

fun draw_input :: "str \<Rightarrow> nat \<Rightarrow> str \<Rightarrow> error + draw list" where
  "draw_input target idx [] = Inr []"
| "draw_input target idx (char # rest) =
     (if idx < length target then
        (let target_char = target ! idx;
             d = (if target_char = char then Addstr [char] Correct
                  else Addstr [target_char] Incorrect)
         in case draw_input target (Suc idx) rest of
              Inl e \<Rightarrow> Inl e
            | Inr ds \<Rightarrow> Inr (d # ds))
      else Inl IndexError)"

text \<open>\<open>_update_display\<close> on a terminal that is \<open>width\<close> columns wide.\<close>

definition update_display :: "nat \<Rightarrow> game \<Rightarrow> int \<Rightarrow> error + draw list" where
  "update_display width g time_left =
     (let wpm = calculate_wpm g (game_time g - time_left);
          target = join space (next_words g)
      in case draw_input target 0 (input g) of
           Inl e \<Rightarrow> Inl e
         | Inr ds \<Rightarrow>
             Inr ([Clear, Header time_left (py_round wpm)] @ ds @
                  [Addstr (take (width - length (input g)) (drop (length (input g)) target)) Default,
                   Refresh]))"

section \<open>Final statistics\<close>

text \<open>
  A line of standard output: \<open>ACC v\<close> is \<open>f"ACC: {v:.2f}%"\<close>, \<open>CPM n\<close> is
  \<open>f"CPM: {n}"\<close> and \<open>WPM n\<close> is \<open>f"WPM: {n}"\<close>. The accuracy line is kept as the
  quotient it shows: the digits that \<open>:.2f\<close> makes of it are not modelled.
\<close>

datatype line = ACC rat | CPM int | WPM int

text \<open>
  \<open>print_stats\<close>, appending to the standard output \<open>out\<close> written so far. The result
  is the output afterwards and the exception raised, if any. The f-string of the first
  \<open>print\<close> is evaluated before anything is written.
\<close>

definition print_stats :: "game \<Rightarrow> line list \<Rightarrow> line list \<times> error option" where
  "print_stats g out =
     (let c = length (correct g);
          total = c + length (wrong g)
      in if total = 0 then (out, Some ZeroDivisionError)
         else
           (let out1 = out @ [ACC (of_nat c / of_nat total * 100)];
                cpm = calculate_cpm g (game_time g);
                out2 = out1 @ [CPM (py_round cpm)];
                wpm = calculate_wpm g (game_time g);
                out3 = out2 @ [WPM (py_round wpm)]
            in (out3, None)))"

section \<open>Keys and the game loop\<close>

definition KEY_BACKSPACE :: int where
  "KEY_BACKSPACE = 263"

text \<open>\<open>curses.keyname(key).decode() == "^R"\<close> holds for key code 18 and no other.\<close>

definition is_ctrl_r :: "int \<Rightarrow> bool" where
  "is_ctrl_r key \<longleftrightarrow> key = 18"

definition chr :: "int \<Rightarrow> error + nat" where
  "chr key = (if 0 \<le> key \<and> key < 1114112 then Inr (nat key) else Inl ValueError)"

text \<open>The assignments of \<open>restart\<close>, up to the call of \<open>self.play()\<close>.\<close>

definition restart_reset :: "game \<Rightarrow> error + game" where
  "restart_reset g =
     (case get_words QUEUE_SIZE (g\<lparr>input := [], correct := [], wrong := []\<rparr>) of
        Inl e \<Rightarrow> Inl e
      | Inr (nw, g') \<Rightarrow> Inr (g'\<lparr>next_words := nw\<rparr>))"

text \<open>
  One pass of the \<open>while\<close> loop reads the terminal and the clock once: an event is the
  key returned by \<open>getch()\<close> (\<open>-1\<close> for none) and the value computed for
  \<open>new_time_left\<close>. The variables \<open>started\<close> and \<open>start\<close> only feed that computation.

  A run ends in one of four ways: the call returns (with the state, the events not yet
  read and the standard output), an exception leaves it, the events given are used up
  while the loop still runs, or the fuel of the model is used up.
\<close>

type_synonym event = "int \<times> int"

datatype outcome =
    Returned game "event list" "line list"
  | Raised error "line list"
  | Waiting game "line list"
  | OutOfFuel

text \<open>
  \<open>restart\<close> calls \<open>play\<close>, which runs a game loop of its own inside the one that
  received the key, so the methods call each other in a cycle. They are defined as one
  function over the kind of call, by recursion on the fuel; every call spends one unit.
  \<open>Game_loop_while g t\<close> is the \<open>while time_left > 0\<close> loop of \<open>_game_loop\<close> entered
  with \<open>time_left = t\<close>, \<open>Game_loop g\<close> the whole method, \<open>Handle_key g key\<close> is
  \<open>_handle_key(key)\<close>, \<open>Restart g\<close> is \<open>restart()\<close> and \<open>Play g\<close> is \<open>play()\<close>.
\<close>

datatype call =
    Game_loop_while game int
  | Game_loop game
  | Handle_key game int
  | Restart game
  | Play game

primrec run :: "nat \<Rightarrow> nat \<Rightarrow> call \<Rightarrow> event list \<Rightarrow> line list \<Rightarrow> outcome" where
  "run 0 width c evs out = OutOfFuel"
| "run (Suc n) width c evs out =
     (case c of
        Game_loop_while g time_left \<Rightarrow>
          (if 0 < time_left then
             (case evs of
                [] \<Rightarrow> Waiting g out
              | ev # evs' \<Rightarrow>
                  (let key = fst ev; new_time_left = snd ev
                   in if key = - 1 then
                        (if time_left \<noteq> new_time_left then
                           (case update_display width g new_time_left of
                              Inl e \<Rightarrow> Raised e out
                            | Inr _ \<Rightarrow> run n width (Game_loop_while g new_time_left) evs' out)
                         else run n width (Game_loop_while g time_left) evs' out)
                      else
                        (case run n width (Handle_key g key) evs' out of
                           Returned g' evs'' out' \<Rightarrow>
                             (case update_display width g' new_time_left of
                                Inl e \<Rightarrow> Raised e out'
                              | Inr _ \<Rightarrow>
                                  run n width (Game_loop_while g' new_time_left) evs'' out')
                         | Raised e out' \<Rightarrow> Raised e out'
                         | Waiting g' out' \<Rightarrow> Waiting g' out'
                         | OutOfFuel \<Rightarrow> OutOfFuel)))
           else Returned g evs out)
      | Game_loop g \<Rightarrow>
          (case update_display width g (game_time g) of
             Inl e \<Rightarrow> Raised e out
           | Inr _ \<Rightarrow> run n width (Game_loop_while g (game_time g)) evs out)
      | Handle_key g key \<Rightarrow>
          (if key < 0 then Raised ValueError out
           else
             (case (if is_ctrl_r key then run n width (Restart g) evs out
                    else Returned g evs out) of
                Returned g1 evs1 out1 \<Rightarrow>
                  if key = KEY_BACKSPACE \<or> key = 127 then
                    Returned (g1\<lparr>input := butlast (input g1)\<rparr>) evs1 out1
                  else
                    (case chr key of
                       Inl e \<Rightarrow> Raised e out1
                     | Inr c \<Rightarrow>
                         if [c] = space then
                           (case finish_word_event g1 of
                              Inl e \<Rightarrow> Raised e out1
                            | Inr g2 \<Rightarrow> Returned g2 evs1 out1)
                         else Returned (g1\<lparr>input := input g1 @ [c]\<rparr>) evs1 out1)
              | Raised e out1 \<Rightarrow> Raised e out1
              | Waiting g1 out1 \<Rightarrow> Waiting g1 out1
              | OutOfFuel \<Rightarrow> OutOfFuel))
      | Restart g \<Rightarrow>
          (case restart_reset g of
             Inl e \<Rightarrow> Raised e out
           | Inr g' \<Rightarrow> run n width (Play g') evs out)
      | Play g \<Rightarrow>
          (case run n width (Game_loop g) evs out of
             Returned g' evs' out' \<Rightarrow>
               (case print_stats g' out' of
                  (out'', None) \<Rightarrow> Returned g' evs' out''
                | (out'', Some e) \<Rightarrow> Raised e out'')
           | Raised e out' \<Rightarrow> Raised e out'
           | Waiting g' out' \<Rightarrow> Waiting g' out'
           | OutOfFuel \<Rightarrow> OutOfFuel))"

definition handle_key :: "nat \<Rightarrow> nat \<Rightarrow> game \<Rightarrow> int \<Rightarrow> event list \<Rightarrow> line list \<Rightarrow> outcome" where
  "handle_key n width g key evs out = run n width (Handle_key g key) evs out"

definition restart :: "nat \<Rightarrow> nat \<Rightarrow> game \<Rightarrow> event list \<Rightarrow> line list \<Rightarrow> outcome" where
  "restart n width g evs out = run n width (Restart g) evs out"

definition play :: "nat \<Rightarrow> nat \<Rightarrow> game \<Rightarrow> event list \<Rightarrow> line list \<Rightarrow> outcome" where
  "play n width g evs out = run n width (Play g) evs out"

section \<open>States of a call and of its outcome\<close>

fun call_game :: "call \<Rightarrow> game" where
  "call_game (Game_loop_while g t) = g"
| "call_game (Game_loop g) = g"
| "call_game (Handle_key g key) = g"
| "call_game (Restart g) = g"
| "call_game (Play g) = g"

text \<open>The state a run ends in, or is in when the events given are used up.\<close>

fun outcome_game :: "outcome \<Rightarrow> game option" where
  "outcome_game (Returned g evs out) = Some g"
| "outcome_game (Waiting g out) = Some g"
| "outcome_game (Raised e out) = None"
| "outcome_game OutOfFuel = None"

text \<open>
  How deep a call is above the loop it ends in: the fuel it spends before the loop reads
  its first event.
\<close>

fun call_depth :: "call \<Rightarrow> nat" where
  "call_depth (Game_loop_while g t) = 1"
| "call_depth (Game_loop g) = 2"
| "call_depth (Play g) = 3"
| "call_depth (Restart g) = 4"
| "call_depth (Handle_key g key) = 5"

text \<open>A word as the vocabulary filter lets it through: stripped and of admitted length.\<close>

definition word_ok :: "args \<Rightarrow> str \<Rightarrow> bool" where
  "word_ok a w \<longleftrightarrow>
     strip w = w \<and> min_length a \<le> int (length w) \<and> int (length w) \<le> max_length a"

text \<open>
  The vocabulary holds admitted words only, and every queued word is in the vocabulary.
\<close>

definition vocab_inv :: "args \<Rightarrow> game \<Rightarrow> bool" where
  "vocab_inv a g \<longleftrightarrow>
     (\<forall>w \<in> set (gen_words g). word_ok a w) \<and> set (next_words g) \<subseteq> set (gen_words g)"

section \<open>A sample session\<close>

text \<open>
  A four-line vocabulary file read with lengths 3 to 4, and the session \<open>__init__\<close>
  builds from it when the random source delivers 0, 1, 2, ...
\<close>

definition demo_args :: args where
  "demo_args =
     \<lparr>vocab = Some [ustr ''cat'' @ [10], ustr '' dog'' @ [10], ustr ''elephant'' @ [10],
                     ustr ''bird'' @ [10]],
      args_game_time = 60, min_length = 3, max_length = 4, words = 10\<rparr>"

definition demo_queue :: "str list" where
  "demo_queue = [ustr ''dog'', ustr ''bird'', ustr ''cat'', ustr ''dog'', ustr ''bird'',
                 ustr ''cat'', ustr ''dog'', ustr ''bird'', ustr ''cat'']"

definition demo_game :: game where
  "demo_game =
     \<lparr>gen_words = [ustr ''cat'', ustr ''dog'', ustr ''bird''], rand = (\<lambda>n. n), drawn = 10,
      game_time = 60, next_words = ustr ''cat'' # demo_queue,
      correct = [], wrong = [], input = []\<rparr>"

section \<open>The sample session, evaluated\<close>

lemma strip_example: "strip (ustr '' dog'' @ [10]) = ustr ''dog''"
  by (simp add: strip_def ustr_def is_space_def)

lemma word_generator_demo:
  "word_generator demo_args = Inr [ustr ''cat'', ustr ''dog'', ustr ''bird'']"
  by (simp add: word_generator_def demo_args_def strip_def ustr_def is_space_def Let_def)

lemma QUEUE_SIZE_Suc:
  "QUEUE_SIZE = Suc (Suc (Suc (Suc (Suc (Suc (Suc (Suc (Suc (Suc 0)))))))))"
  by (simp add: QUEUE_SIZE_def)

lemma args_game_time_demo: "args_game_time demo_args = 60"
  by (simp add: demo_args_def)

lemma Game_init_demo: "Game_init demo_args (\<lambda>n. n) = Inr demo_game"
  by (simp add: Game_init_def word_generator_demo args_game_time_demo QUEUE_SIZE_Suc
      get_word_def choice_def demo_game_def demo_queue_def Let_def)

text \<open>The loop, the whole \<open>_game_loop\<close> and \<open>play\<close>, each with fuel left.\<close>

lemma run_Game_loop_while:
  "run (Suc n) width (Game_loop_while g time_left) evs out =
     (if 0 < time_left then
        (case evs of
           [] \<Rightarrow> Waiting g out
         | ev # evs' \<Rightarrow>
             if fst ev = - 1 then
               (if time_left \<noteq> snd ev then
                  (case update_display width g (snd ev) of
                     Inl e \<Rightarrow> Raised e out
                   | Inr _ \<Rightarrow> run n width (Game_loop_while g (snd ev)) evs' out)
                else run n width (Game_loop_while g time_left) evs' out)
             else
               (case run n width (Handle_key g (fst ev)) evs' out of
                  Returned g' evs'' out' \<Rightarrow>
                    (case update_display width g' (snd ev) of
                       Inl e \<Rightarrow> Raised e out'
                     | Inr _ \<Rightarrow> run n width (Game_loop_while g' (snd ev)) evs'' out')
                | Raised e out' \<Rightarrow> Raised e out'
                | Waiting g' out' \<Rightarrow> Waiting g' out'
                | OutOfFuel \<Rightarrow> OutOfFuel))
      else Returned g evs out)"
  by (cases evs) (simp_all add: Let_def)

lemma run_Game_loop:
  "run (Suc n) width (Game_loop g) evs out =
     (case update_display width g (game_time g) of
        Inl e \<Rightarrow> Raised e out
      | Inr _ \<Rightarrow> run n width (Game_loop_while g (game_time g)) evs out)"
  by simp

lemma run_Play:
  "run (Suc n) width (Play g) evs out =
     (case run n width (Game_loop g) evs out of
        Returned g' evs' out' \<Rightarrow>
          (case print_stats g' out' of
             (out'', None) \<Rightarrow> Returned g' evs' out''
           | (out'', Some e) \<Rightarrow> Raised e out'')
      | Raised e out' \<Rightarrow> Raised e out'
      | Waiting g' out' \<Rightarrow> Waiting g' out'
      | OutOfFuel \<Rightarrow> OutOfFuel)"
  by simp

lemma update_display_empty_input:
  "input g = [] \<Longrightarrow> \<exists>ds. update_display width g time_left = Inr ds"
  by (simp add: update_display_def Let_def)

section \<open>Completing a word\<close>

text \<open>
  Claim C1. In a session whose queue has a front word \<open>F\<close> (and whose vocabulary is not
  empty, as in every session \<open>__init__\<close> has built), \<open>_finish_word_event\<close> removes \<open>F\<close>
  from the front of \<open>next_words\<close>, appends \<open>F\<close> itself to \<open>correct\<close> when the input
  equals \<open>F\<close> and to \<open>wrong\<close> otherwise, appends one word drawn from the vocabulary to
  the back of the queue, and sets the input to the empty string.
\<close>

theorem finish_word_event_pops_and_scores:
  assumes "next_words g = F # rest" and "gen_words g \<noteq> []"
  shows "\<exists>w. choice (rand g (drawn g)) (gen_words g) = Inr w \<and> w \<in> set (gen_words g) \<and>
     finish_word_event g =
       Inr (g\<lparr>next_words := rest @ [w],
              correct := (if input g = F then correct g @ [F] else correct g),
              wrong := (if input g = F then wrong g else wrong g @ [F]),
              input := [],
              drawn := Suc (drawn g)\<rparr>)"
  using assms by (simp add: finish_word_event_def get_word_def choice_def Let_def)

text \<open>The scenario of the specification: input "cot" against the front word "cat".\<close>

theorem finish_word_event_pops_and_scores_witness:
  "next_words (demo_game\<lparr>input := ustr ''cot''\<rparr>) = ustr ''cat'' # demo_queue \<and>
   gen_words (demo_game\<lparr>input := ustr ''cot''\<rparr>) \<noteq> [] \<and>
   finish_word_event (demo_game\<lparr>input := ustr ''cot''\<rparr>) =
     Inr (demo_game\<lparr>next_words := demo_queue @ [ustr ''dog''], wrong := [ustr ''cat''],
                     input := [], drawn := 11\<rparr>)"
  using finish_word_event_pops_and_scores
          [of "demo_game\<lparr>input := ustr ''cot''\<rparr>" "ustr ''cat''" demo_queue]
  by (simp add: demo_game_def choice_def ustr_def)

section \<open>Rounding to a double\<close>







text \<open>
  So \<open>double x\<close> is within half a unit in the last place of \<open>x\<close>: a relative error
  of at most \<open>2^-53\<close>, or \<open>2^-1075\<close> in the subnormal range.
\<close>

lemma double_0 [simp]: "double 0 = 0"
  by (simp add: double_def)



section \<open>Scores\<close>






section \<open>Final statistics\<close>



text \<open>
  With at least one completed word \<open>print_stats\<close> writes three lines, in the order
  ACC, CPM, WPM; the scores are computed with the configured \<open>game_time\<close> as the time
  played and rounded to an integer.
\<close>

lemma print_stats_with_words:
  assumes "0 < length (correct g) + length (wrong g)"
  shows "print_stats g out =
     (out @ [ACC (of_nat (length (correct g)) /
                    of_nat (length (correct g) + length (wrong g)) * 100),
             CPM (py_round (calculate_cpm g (game_time g))),
             WPM (py_round (calculate_wpm g (game_time g)))], None)"
  using assms by (simp add: print_stats_def Let_def)

text \<open>
  Eleven correct characters in 88 seconds: \<open>60 / 88 * 11\<close> is 7.499999999999999 in
  doubles and a fifth of it 1.4999999999999998, so the lines say 7 and 1. Thirteen
  characters in 8 seconds give 97.5 and 19.5, both exact, and the ties go to 98 and 20.
\<close>

lemma print_stats_example_88:
  "print_stats (demo_game\<lparr>game_time := 88,
                           correct := [ustr ''the'', ustr ''cat'', ustr ''dog'']\<rparr>) [] =
     ([ACC 100, CPM 7, WPM 1], None)"
  by code_simp

lemma print_stats_example_8:
  "print_stats (demo_game\<lparr>game_time := 8,
                           correct := [ustr ''the'', ustr ''cat'', ustr ''house'']\<rparr>) [] =
     ([ACC 100, CPM 98, WPM 20], None)"
  by code_simp

text \<open>
  Claim C10. When the session ends with no completed word, \<open>print_stats\<close> raises
  \<open>ZeroDivisionError\<close> with the standard output as it was: none of the three lines is
  written. The exception leaves \<open>play\<close> as well, so the run does not end normally.
\<close>

theorem print_stats_zero_words_raises:
  assumes "correct g = []" and "wrong g = []"
  shows "print_stats g out = (out, Some ZeroDivisionError) \<and>
         (run n width (Game_loop g0) evs out0 = Returned g evs' out \<longrightarrow>
            play (Suc n) width g0 evs out0 = Raised ZeroDivisionError out)"
  using assms by (simp add: print_stats_def Let_def play_def)

text \<open>A one-second game in which no key is pressed.\<close>

theorem print_stats_zero_words_raises_witness:
  "correct (demo_game\<lparr>game_time := 1\<rparr>) = [] \<and> wrong (demo_game\<lparr>game_time := 1\<rparr>) = [] \<and>
   print_stats (demo_game\<lparr>game_time := 1\<rparr>) [] = ([], Some ZeroDivisionError) \<and>
   play (Suc (Suc (Suc (Suc (Suc 0))))) 80 (demo_game\<lparr>game_time := 1\<rparr>) [(- 1, 1), (- 1, 0)] [] =
     Raised ZeroDivisionError []"
proof -
  let ?g = "demo_game\<lparr>game_time := 1\<rparr>"
  have i: "input ?g = []" "correct ?g = []" "wrong ?g = []" "game_time ?g = 1"
    by (simp_all add: demo_game_def)
  obtain ds where u: "update_display 80 ?g 1 = Inr ds"
    using update_display_empty_input [of ?g 80 1] i(1) by blast
  obtain ds' where u': "update_display 80 ?g 0 = Inr ds'"
    using update_display_empty_input [of ?g 80 0] i(1) by blast
  have r: "run (Suc (Suc (Suc (Suc 0)))) 80 (Game_loop ?g) [(- 1, 1), (- 1, 0)] [] =
             Returned ?g [] []"
    by (simp add: i u u' del: game.simps)
  from print_stats_zero_words_raises
         [of ?g "[]" "Suc (Suc (Suc (Suc 0)))" 80 ?g "[(- 1, 1), (- 1, 0)]" "[]" "[]"] i r
  show ?thesis by simp
qed

section \<open>Display\<close>

lemma draw_input_zip:
  "idx + length cs \<le> length target \<Longrightarrow>
   draw_input target idx cs =
     Inr (map2 (\<lambda>t c. if t = c then Addstr [c] Correct else Addstr [t] Incorrect)
            (take (length cs) (drop idx target)) cs)"
proof (induction cs arbitrary: idx)
  case Nil
  then show ?case by simp
next
  case (Cons c cs)
  then have lt: "idx < length target" and le: "Suc idx + length cs \<le> length target"
    by simp_all
  have d: "drop idx target = target ! idx # drop (Suc idx) target"
    using lt by (simp add: Cons_nth_drop_Suc)
  show ?case
    using lt Cons.IH [OF le] by (simp add: d Let_def)
qed

lemma map2_index:
  "length xs = length ys \<Longrightarrow> map2 f xs ys = map (\<lambda>i. f (xs ! i) (ys ! i)) [0..<length ys]"
  by (rule nth_equalityI) simp_all

lemma draw_input_index:
  assumes "length cs \<le> length target"
  shows "draw_input target 0 cs =
     Inr (map (\<lambda>i. if cs ! i = target ! i then Addstr [target ! i] Correct
                     else Addstr [target ! i] Incorrect) [0..<length cs])"
proof -
  have "draw_input target 0 cs =
     Inr (map2 (\<lambda>t c. if t = c then Addstr [c] Correct else Addstr [t] Incorrect)
            (take (length cs) target) cs)"
    using draw_input_zip [of 0 cs target] assms by simp
  also have "map2 (\<lambda>t c. if t = c then Addstr [c] Correct else Addstr [t] Incorrect)
            (take (length cs) target) cs =
     map (\<lambda>i. if cs ! i = target ! i then Addstr [target ! i] Correct
                     else Addstr [target ! i] Incorrect) [0..<length cs]"
    using assms by (subst map2_index) (auto simp: min_def)
  finally show ?thesis .
qed

text \<open>
  When the input is no longer than the target (the queue's words joined by single
  spaces), \<open>_update_display\<close> writes, for each index below the length of the input, the
  target's character at that index, in the correct style when the input has the same
  character there and in the incorrect style otherwise, and then writes in the default
  style the part of the target beyond the input's length, clipped to the width of the
  terminal.
\<close>

lemma update_display_within_target:
  assumes "length (input g) \<le> length (join space (next_words g))"
  shows "update_display width g time_left =
     Inr ([Clear, Header time_left (py_round (calculate_wpm g (game_time g - time_left)))] @
          map (\<lambda>i. if input g ! i = join space (next_words g) ! i
                    then Addstr [join space (next_words g) ! i] Correct
                    else Addstr [join space (next_words g) ! i] Incorrect)
            [0..<length (input g)] @
          [Addstr (drop (length (input g)) (take width (join space (next_words g)))) Default,
           Refresh])"
  using assms by (simp add: update_display_def Let_def draw_input_index drop_take)

lemma update_display_returns:
  assumes "length (input g) \<le> length (join space (next_words g))"
  shows "\<exists>ds. update_display width g time_left = Inr ds"
  using update_display_within_target [OF assms] by blast

text \<open>Input "cot" against the front word "cat", on a terminal 20 columns wide.\<close>

lemma update_display_example:
  "length (input (demo_game\<lparr>input := ustr ''cot''\<rparr>)) \<le>
     length (join space (next_words (demo_game\<lparr>input := ustr ''cot''\<rparr>))) \<and>
   update_display 20 (demo_game\<lparr>input := ustr ''cot''\<rparr>) 60 =
     Inr [Clear, Header 60 0, Addstr (ustr ''c'') Correct, Addstr (ustr ''a'') Incorrect,
          Addstr (ustr ''t'') Correct, Addstr (ustr '' dog bird cat dog'') Default, Refresh]"
proof -
  let ?g = "demo_game\<lparr>input := ustr ''cot''\<rparr>"
  have r: "py_round 0 = 0" by code_simp
  have b: "length (input ?g) \<le> length (join space (next_words ?g))"
    by (simp add: demo_game_def demo_queue_def ustr_def space_def)
  have a: "update_display 20 ?g 60 =
     Inr [Clear, Header 60 0, Addstr (ustr ''c'') Correct, Addstr (ustr ''a'') Incorrect,
          Addstr (ustr ''t'') Correct, Addstr (ustr '' dog bird cat dog'') Default, Refresh]"
    by (simp add: update_display_def calculate_wpm_def r demo_game_def demo_queue_def ustr_def
        space_def Let_def)
  from update_display_within_target [OF b, of 20 60] a b show ?thesis by simp
qed

text \<open>
  Once the input is longer than the target, the loop over the input reaches an index
  past the target's end and \<open>target[idx]\<close> raises.
\<close>

lemma draw_input_past_target:
  "idx \<le> length target \<Longrightarrow> length target < idx + length cs \<Longrightarrow>
   draw_input target idx cs = Inl IndexError"
proof (induction cs arbitrary: idx)
  case Nil
  then show ?case by simp
next
  case (Cons c cs)
  show ?case
  proof (cases "idx < length target")
    case True
    with Cons.prems have "Suc idx \<le> length target" and "length target < Suc idx + length cs"
      by simp_all
    from Cons.IH [OF this] True show ?thesis by (simp add: Let_def)
  next
    case False
    then show ?thesis by simp
  qed
qed

lemma update_display_past_target:
  assumes "length (join space (next_words g)) < length (input g)"
  shows "update_display width g time_left = Inl IndexError"
  using draw_input_past_target [of 0 "join space (next_words g)" "input g"] assms
  by (simp add: update_display_def Let_def)

lemma demo_target_length: "length (join space (next_words demo_game)) = 42"
  by (simp add: demo_game_def demo_queue_def ustr_def space_def)

text \<open>
  Claim C8. The renderer is to write, for each index below the length of the input, the
  target's character at that index in the correct or the incorrect style. The target of
  the sample session has 42 characters. With 42 characters typed and no space among
  them, the next ordinary key makes the input 43 characters long; \<open>_update_display\<close>
  then reads \<open>target[42]\<close>, and \<open>IndexError\<close> leaves the game loop.
\<close>

theorem game_loop_raises_past_target:
  "length (join space (next_words (demo_game\<lparr>input := replicate 42 97\<rparr>))) = 42 \<and>
   length (input (demo_game\<lparr>input := replicate 42 97\<rparr>)) = 42 \<and>
   run (Suc (Suc 0)) 80 (Game_loop_while (demo_game\<lparr>input := replicate 42 97\<rparr>) 60)
     [(97, 60)] [] = Raised IndexError []"
proof -
  let ?g = "demo_game\<lparr>input := replicate 42 97\<rparr>"
  let ?g' = "?g\<lparr>input := input ?g @ [97]\<rparr>"
  have l: "length (join space (next_words ?g)) = 42"
    using demo_target_length by simp
  have "length (join space (next_words ?g')) < length (input ?g')"
    using demo_target_length by simp
  then have u: "update_display 80 ?g' 60 = Inl IndexError"
    by (rule update_display_past_target)
  have k: "run (Suc 0) 80 (Handle_key ?g 97) [] [] = Returned ?g' [] []"
    by (simp add: is_ctrl_r_def KEY_BACKSPACE_def chr_def space_def)
  have "run (Suc (Suc 0)) 80 (Game_loop_while ?g 60) [(97, 60)] [] = Raised IndexError []"
    using k u by (simp add: is_ctrl_r_def KEY_BACKSPACE_def chr_def space_def)
  with l show ?thesis by simp
qed

section \<open>A game without a completed word\<close>

text \<open>
  Claim C7. On normal completion \<open>print_stats\<close> is to print three lines, ACC, CPM and
  WPM. In a one-second game the player types the letter "a"; four polls find no key and
  one second left, the next finds the time rounded to zero. The game loop ends normally,
  no word was completed, and \<open>print_stats\<close> raises \<open>ZeroDivisionError\<close> in the
  accuracy before it has printed anything.
\<close>

theorem play_without_completed_word_prints_nothing:
  "play 9 80 (demo_game\<lparr>game_time := 1\<rparr>)
     [(97, 1), (- 1, 1), (- 1, 1), (- 1, 1), (- 1, 1), (- 1, 0)] [] =
   Raised ZeroDivisionError []"
proof -
  let ?g = "demo_game\<lparr>game_time := 1\<rparr>"
  let ?g' = "demo_game\<lparr>game_time := 1, input := [97]\<rparr>"
  have i: "input demo_game = []" "correct demo_game = []" "wrong demo_game = []"
    by (simp_all add: demo_game_def)
  have l: "length (input ?g') \<le> length (join space (next_words ?g'))"
    using demo_target_length by simp
  obtain d0 where u0: "update_display 80 ?g 1 = Inr d0"
    using update_display_empty_input [of ?g 80 1] i(1) by auto
  obtain d1 where u1: "update_display 80 ?g' 1 = Inr d1"
    using update_display_returns [OF l, of 80 1] by blast
  obtain d2 where u2: "update_display 80 ?g' 0 = Inr d2"
    using update_display_returns [OF l, of 80 0] by blast
  have p: "print_stats ?g' [] = ([], Some ZeroDivisionError)"
    by (simp add: print_stats_def Let_def i)
  have k: "run (Suc n) 80 (Handle_key ?g 97) evs [] = Returned ?g' evs []" for n evs
    by (simp add: is_ctrl_r_def KEY_BACKSPACE_def chr_def space_def i)
  have r: "run (Suc (Suc (Suc (Suc (Suc (Suc (Suc (Suc 0)))))))) 80 (Game_loop ?g)
          [(97, 1), (- 1, 1), (- 1, 1), (- 1, 1), (- 1, 1), (- 1, 0)] [] =
        Returned ?g' [] []"
    by (simp add: run_Game_loop run_Game_loop_while k u0 u1 u2 del: run.simps)
  have e: "(9::nat) = Suc (Suc (Suc (Suc (Suc (Suc (Suc (Suc (Suc 0))))))))"
    by simp
  show ?thesis
    unfolding play_def e by (simp add: run_Play r p del: run.simps)
qed

section \<open>Loading the vocabulary\<close>

text \<open>
  For a limit \<open>words\<close> of at least one, the generator's vocabulary is the first
  \<open>words\<close> stripped lines whose length lies within the bounds, in file order.
\<close>

lemma read_words_take:
  assumes "int (length ws) < words a"
  shows "read_words a ls ws =
     take (nat (words a))
       (ws @ filter (\<lambda>w. min_length a \<le> int (length w) \<and> int (length w) \<le> max_length a)
               (map strip ls))"
  using assms
proof (induction ls arbitrary: ws)
  case Nil
  then show ?case by simp
next
  case (Cons l ls)
  show ?case
  proof (cases "min_length a \<le> int (length (strip l)) \<and> int (length (strip l)) \<le> max_length a")
    case True
    show ?thesis
    proof (cases "words a \<le> int (length ws) + 1")
      case True
      with Cons.prems have "nat (words a) = Suc (length ws)" by simp
      with True \<open>min_length a \<le> int (length (strip l)) \<and> int (length (strip l)) \<le> max_length a\<close>
      show ?thesis by (simp add: Let_def)
    next
      case False
      then have "int (length (ws @ [strip l])) < words a" by simp
      from Cons.IH [OF this] False
        \<open>min_length a \<le> int (length (strip l)) \<and> int (length (strip l)) \<le> max_length a\<close>
      show ?thesis by (simp add: Let_def)
    qed
  next
    case False
    with Cons.IH [OF Cons.prems] Cons.prems show ?thesis by (auto simp add: Let_def)
  qed
qed

lemma word_generator_first_words:
  assumes "0 < words a" and "vocab a = Some ls"
  shows "word_generator a =
     Inr (take (nat (words a))
            (filter (\<lambda>w. min_length a \<le> int (length w) \<and> int (length w) \<le> max_length a)
               (map strip ls)))"
  using assms read_words_take [of "[]" a ls] by (simp add: word_generator_def)

text \<open>
  Claim C5. The vocabulary holds at most \<open>words\<close> entries. The loop tests the limit
  only after it has appended: with \<open>words = 0\<close> the first line, when its length
  qualifies, is kept, and the vocabulary has one entry.
\<close>

theorem word_generator_zero_words_keeps_one:
  "words (demo_args\<lparr>words := 0\<rparr>) = 0 \<and>
   word_generator (demo_args\<lparr>words := 0\<rparr>) = Inr [ustr ''cat'']"
  by (simp add: word_generator_def demo_args_def strip_def ustr_def is_space_def Let_def)


section \<open>The restart key\<close>

lemma py_round_0: "py_round 0 = 0"
  by code_simp

text \<open>
  In \<open>_handle_key\<close> the test for Ctrl-R is an \<open>if\<close> of its own, and the chain that
  follows starts with a second \<open>if\<close>: once \<open>restart()\<close> has returned, the same key
  goes through that chain, where it is neither backspace nor space. Whenever the call
  returns, the input ends with the character 18.
\<close>

lemma handle_key_ctrl_r_appends:
  assumes "handle_key n width g 18 evs out = Returned g' evs' out'"
  shows "input g' \<noteq> [] \<and> last (input g') = 18"
proof (cases n)
  case 0
  with assms show ?thesis by (simp add: handle_key_def)
next
  case (Suc m)
  with assms show ?thesis
    by (auto simp add: handle_key_def is_ctrl_r_def KEY_BACKSPACE_def chr_def space_def
        split: outcome.splits)
qed

text \<open>
  Claim C6. On Ctrl-R, \<open>_handle_key\<close> restarts the session and is to make no other
  transition for that key. In the sample session, Ctrl-R is pressed; in the restarted
  game the space key is pressed with 59 seconds left and the time then runs out. The
  restarted game prints its statistics, \<open>restart()\<close> returns, and the key handler
  appends \<open>chr(18)\<close> to the input.
\<close>

theorem handle_key_ctrl_r_falls_through:
  "(case handle_key 7 80 demo_game 18 [(32, 59), (- 1, 0)] [] of
      Returned g' evs' out' \<Rightarrow>
        input g' = [18] \<and> wrong g' = [ustr ''dog''] \<and> evs' = [] \<and>
        out' = [ACC 0, CPM 0, WPM 0]
    | Raised e out' \<Rightarrow> False
    | Waiting g' out' \<Rightarrow> False
    | OutOfFuel \<Rightarrow> False)"
proof -
  define g1 where "g1 = demo_game\<lparr>next_words := demo_queue @ [ustr ''dog''], drawn := 20\<rparr>"
  define g2 where "g2 = g1\<lparr>next_words := tl demo_queue @ [ustr ''dog'', ustr ''bird''],
                          wrong := [ustr ''dog''], drawn := 21\<rparr>"
  have rr: "restart_reset demo_game = Inr g1"
    by (simp add: restart_reset_def QUEUE_SIZE_Suc get_word_def choice_def demo_game_def
        demo_queue_def g1_def)
  have fw: "finish_word_event g1 = Inr g2"
    by (simp add: finish_word_event_def get_word_def choice_def demo_game_def demo_queue_def
        g1_def g2_def ustr_def Let_def)
  have i1: "input g1 = []" "game_time g1 = 60"
    by (simp_all add: g1_def demo_game_def)
  have i2: "input g2 = []" "game_time g2 = 60" "correct g2 = []" "wrong g2 = [ustr ''dog'']"
    by (simp_all add: g2_def g1_def demo_game_def)
  obtain d1 where u1: "update_display 80 g1 60 = Inr d1"
    using update_display_empty_input [of g1 80 60] i1(1) by blast
  obtain d2 where u2: "update_display 80 g2 59 = Inr d2"
    using update_display_empty_input [of g2 80 59] i2(1) by blast
  obtain d3 where u3: "update_display 80 g2 0 = Inr d3"
    using update_display_empty_input [of g2 80 0] i2(1) by blast
  have ps: "print_stats g2 [] = ([ACC 0, CPM 0, WPM 0], None)"
    by (simp add: print_stats_def calculate_cpm_def calculate_wpm_def i2 py_round_0 Let_def)
  have k: "run (Suc 0) 80 (Handle_key g1 32) [(- 1, 0)] [] = Returned g2 [(- 1, 0)] []"
    by (simp add: is_ctrl_r_def KEY_BACKSPACE_def chr_def space_def fw)
  have w2: "run (Suc (Suc 0)) 80 (Game_loop_while g2 59) [(- 1, 0)] [] = Returned g2 [] []"
    by (simp add: u3)
  have w1: "run (Suc (Suc (Suc 0))) 80 (Game_loop_while g1 60) [(32, 59), (- 1, 0)] [] =
              Returned g2 [] []"
    using k w2 by (simp add: u2 is_ctrl_r_def KEY_BACKSPACE_def chr_def space_def fw)
  have p: "run (Suc (Suc (Suc (Suc (Suc 0))))) 80 (Play g1) [(32, 59), (- 1, 0)] [] =
             Returned g2 [] [ACC 0, CPM 0, WPM 0]"
    using w1 by (simp add: i1 u1 ps u2 u3 is_ctrl_r_def KEY_BACKSPACE_def chr_def space_def fw)
  have h: "handle_key (Suc (Suc (Suc (Suc (Suc (Suc (Suc 0))))))) 80 demo_game 18
             [(32, 59), (- 1, 0)] [] =
           Returned (g2\<lparr>input := [18]\<rparr>) [] [ACC 0, CPM 0, WPM 0]"
    unfolding handle_key_def using p
    by (simp add: rr i1 i2 u1 ps u2 u3 is_ctrl_r_def KEY_BACKSPACE_def chr_def space_def fw)
  have e: "(7::nat) = Suc (Suc (Suc (Suc (Suc (Suc (Suc 0))))))"
    by simp
  show ?thesis
    unfolding e h by (simp add: i2)
qed


section \<open>Fuel\<close>

text \<open>
  Five units of fuel for each event given, and the depth of the call, are enough: the run
  then returns, raises or has used up its events, and a call that returns never hands
  back more events than it was given.
\<close>

lemma run_enough_fuel:
  "5 * length evs + call_depth c \<le> n \<Longrightarrow>
   run n width c evs out \<noteq> OutOfFuel \<and>
   (\<forall>g' evs' out'. run n width c evs out = Returned g' evs' out' \<longrightarrow>
      length evs' \<le> length evs)"
proof (induction n arbitrary: c evs out)
  case 0
  then show ?case by (cases c) simp_all
next
  case (Suc n)
  have nf: "run n width c evs out \<noteq> OutOfFuel"
    if "5 * length evs + call_depth c \<le> n" for c evs out
    using Suc.IH [OF that] by blast
  have sh: "length evs' \<le> length evs"
    if "run n width c evs out = Returned g' evs' out'" and "5 * length evs + call_depth c \<le> n"
    for c evs out g' evs' out'
    using Suc.IH [OF that(2)] that(1) by blast
  show ?case
  proof (cases c)
    case (Game_loop_while g t)
    show ?thesis
    proof (cases "0 < t")
      case False
      with Game_loop_while show ?thesis by simp
    next
      case True
      show ?thesis
      proof (cases evs)
        case Nil
        with True Game_loop_while show ?thesis by simp
      next
        case (Cons ev evs1)
        with Suc.prems Game_loop_while have b: "5 * length evs1 + 5 \<le> n" by simp
        show ?thesis
        proof (cases "fst ev = - 1")
          case k: True
          have d: "5 * length evs1 + call_depth (Game_loop_while g t') \<le> n" for t'
            using b by simp
          from k True Cons Game_loop_while show ?thesis
            by (auto simp add: Let_def nf [OF d] split: sum.splits dest: sh [OF _ d])
        next
          case k: False
          have d: "5 * length evs1 + call_depth (Handle_key g (fst ev)) \<le> n"
            using b by simp
          show ?thesis
          proof (cases "run n width (Handle_key g (fst ev)) evs1 out")
            case (Returned g2 evs2 out2)
            from sh [OF Returned d] have l: "length evs2 \<le> length evs1" .
            with b have d2: "5 * length evs2 + call_depth (Game_loop_while g2 (snd ev)) \<le> n"
              by simp
            from l Returned k True Cons Game_loop_while show ?thesis
              by (auto simp add: Let_def nf [OF d2] split: sum.splits dest: sh [OF _ d2])
          next
            case (Raised e out2)
            with k True Cons Game_loop_while show ?thesis by (simp add: Let_def)
          next
            case (Waiting g2 out2)
            with k True Cons Game_loop_while show ?thesis by (simp add: Let_def)
          next
            case OutOfFuel
            with nf [OF d] show ?thesis by simp
          qed
        qed
      qed
    qed
  next
    case (Game_loop g)
    with Suc.prems have d: "5 * length evs + call_depth (Game_loop_while g (game_time g)) \<le> n"
      by simp
    from Game_loop show ?thesis
      by (auto simp add: nf [OF d] split: sum.splits dest: sh [OF _ d])
  next
    case (Handle_key g key)
    with Suc.prems have d: "5 * length evs + call_depth (Restart g) \<le> n"
      by simp
    from Handle_key show ?thesis
      by (auto simp add: nf [OF d] split: sum.splits outcome.splits dest: sh [OF _ d])
  next
    case (Restart g)
    have d: "5 * length evs + call_depth (Play g') \<le> n" for g'
      using Suc.prems Restart by simp
    from Restart show ?thesis
      by (auto simp add: nf [OF d] split: sum.splits dest: sh [OF _ d])
  next
    case (Play g)
    with Suc.prems have d: "5 * length evs + call_depth (Game_loop g) \<le> n"
      by simp
    from Play show ?thesis
      by (auto simp add: nf [OF d] split: outcome.splits prod.splits option.splits
          dest: sh [OF _ d])
  qed
qed

section \<open>Invariants of the session\<close>

subsection \<open>Drawing words\<close>

lemma get_word_spec:
  "get_word g = Inr (w, g') \<Longrightarrow> w \<in> set (gen_words g) \<and> g' = g\<lparr>drawn := Suc (drawn g)\<rparr>"
  by (auto simp add: get_word_def choice_def split: if_splits)

lemma get_words_spec:
  "get_words n g = Inr (ws, g') \<Longrightarrow>
   length ws = n \<and> set ws \<subseteq> set (gen_words g) \<and> g' = g\<lparr>drawn := drawn g + n\<rparr>"
proof (induction n arbitrary: g ws g')
  case 0
  then show ?case by simp
next
  case (Suc n)
  from Suc.prems obtain w g1 ws1 where
    a: "get_word g = Inr (w, g1)" and b: "get_words n g1 = Inr (ws1, g')" and c: "ws = w # ws1"
    by (auto split: sum.splits prod.splits)
  from get_word_spec [OF a] Suc.IH [OF b] c show ?case by simp
qed

lemma get_words_total:
  "gen_words g \<noteq> [] \<Longrightarrow> \<exists>ws g'. get_words n g = Inr (ws, g')"
proof (induction n arbitrary: g)
  case 0
  then show ?case by simp
next
  case (Suc n)
  have "gen_words (g\<lparr>drawn := Suc (drawn g)\<rparr>) \<noteq> []" using Suc.prems by simp
  from Suc.IH [OF this] Suc.prems show ?case
    by (auto simp add: get_word_def choice_def)
qed


subsection \<open>Stripping is idempotent, so loaded words are stripped\<close>

lemma last_dropWhile_nonempty:
  "dropWhile P xs \<noteq> [] \<Longrightarrow> last (dropWhile P xs) = last xs"
  by (induction xs) auto

lemma strip_idem: "strip (strip s) = strip s"
proof -
  define u where "u = dropWhile is_space s"
  define v where "v = dropWhile is_space (rev u)"
  have t: "strip s = rev v" by (simp add: strip_def u_def v_def)
  have a: "dropWhile is_space (rev v) = rev v"
  proof (cases "v = []")
    case True
    then show ?thesis by simp
  next
    case False
    then have "last v = last (rev u)"
      unfolding v_def by (rule last_dropWhile_nonempty)
    moreover from False have "u \<noteq> []" by (auto simp add: v_def)
    ultimately have "hd (rev v) = hd u"
      using False by (simp add: hd_rev last_rev)
    moreover have "\<not> is_space (hd u)"
      using \<open>u \<noteq> []\<close> unfolding u_def by (rule hd_dropWhile)
    ultimately show ?thesis
      using False by (simp add: dropWhile_eq_self_iff)
  qed
  have b: "dropWhile is_space v = v"
    unfolding v_def by (rule dropWhile_idem)
  show ?thesis
    unfolding t by (simp add: strip_def a b)
qed

lemma read_words_ok:
  "\<forall>w \<in> set ws. word_ok a w \<Longrightarrow> \<forall>w \<in> set (read_words a ls ws). word_ok a w"
proof (induction ls arbitrary: ws)
  case Nil
  then show ?case by simp
next
  case (Cons l ls)
  let ?ws' = "if min_length a \<le> int (length (strip l)) \<and> int (length (strip l)) \<le> max_length a
              then ws @ [strip l] else ws"
  have ok: "\<forall>w \<in> set ?ws'. word_ok a w"
    using Cons.prems by (auto simp add: word_ok_def strip_idem)
  from Cons.IH [OF ok] ok show ?case
    by (simp add: Let_def)
qed

lemma word_generator_ok:
  "word_generator a = Inr ws \<Longrightarrow> \<forall>w \<in> set ws. word_ok a w"
  using read_words_ok [of "[]" a]
  by (auto simp add: word_generator_def split: option.splits)


subsection \<open>What the operations do to the queue\<close>

lemma Game_init_spec:
  assumes "Game_init a r = Inr g"
  shows "word_generator a = Inr (gen_words g) \<and> length (next_words g) = QUEUE_SIZE \<and>
         set (next_words g) \<subseteq> set (gen_words g)"
proof -
  from assms obtain ws nw g' where
    w: "word_generator a = Inr ws" and
    d: "get_words QUEUE_SIZE
          \<lparr>gen_words = ws, rand = r, drawn = 0, game_time = args_game_time a,
           next_words = [], correct = [], wrong = [], input = []\<rparr> = Inr (nw, g')" and
    g: "g = g'\<lparr>next_words := nw, correct := [], wrong := [], input := []\<rparr>"
    by (auto simp add: Game_init_def Let_def split: sum.splits prod.splits)
  from get_words_spec [OF d] w g show ?thesis by simp
qed

lemma Game_init_total:
  assumes "word_generator a = Inr ws" and "ws \<noteq> []"
  shows "\<exists>g. Game_init a r = Inr g"
proof -
  let ?g = "\<lparr>gen_words = ws, rand = r, drawn = 0, game_time = args_game_time a,
            next_words = [], correct = [], wrong = [], input = []\<rparr>"
  have "gen_words ?g \<noteq> []" using assms(2) by simp
  from get_words_total [OF this, of QUEUE_SIZE] assms(1) show ?thesis
    by (auto simp add: Game_init_def Let_def)
qed

lemma finish_word_event_spec:
  assumes "finish_word_event g = Inr g'"
  shows "gen_words g' = gen_words g \<and> length (next_words g') = length (next_words g) \<and>
         set (next_words g') \<subseteq> set (next_words g) \<union> set (gen_words g)"
proof -
  from assms obtain target rest where n: "next_words g = target # rest"
    by (auto simp add: finish_word_event_def split: list.splits)
  from assms n show ?thesis
    by (auto simp add: finish_word_event_def Let_def dest!: get_word_spec
        split: sum.splits prod.splits if_splits)
qed

lemma finish_word_event_total:
  assumes "gen_words g \<noteq> []" and "next_words g \<noteq> []"
  shows "\<exists>g'. finish_word_event g = Inr g'"
  using assms
  by (auto simp add: finish_word_event_def get_word_def choice_def Let_def split: list.splits)

lemma restart_reset_spec:
  assumes "restart_reset g = Inr g'"
  shows "gen_words g' = gen_words g \<and> length (next_words g') = QUEUE_SIZE \<and>
         set (next_words g') \<subseteq> set (gen_words g)"
proof -
  from assms obtain nw g1 where
    d: "get_words QUEUE_SIZE (g\<lparr>input := [], correct := [], wrong := []\<rparr>) = Inr (nw, g1)" and
    g: "g' = g1\<lparr>next_words := nw\<rparr>"
    by (auto simp add: restart_reset_def split: sum.splits prod.splits)
  from get_words_spec [OF d] g show ?thesis by simp
qed

lemma restart_reset_total:
  assumes "gen_words g \<noteq> []"
  shows "\<exists>g'. restart_reset g = Inr g'"
proof -
  have "gen_words (g\<lparr>input := [], correct := [], wrong := []\<rparr>) \<noteq> []" using assms by simp
  from get_words_total [OF this, of QUEUE_SIZE] show ?thesis
    by (auto simp add: restart_reset_def)
qed

subsection \<open>Every call of the game loop preserves what the operations preserve\<close>

text \<open>
  A property of the state that holds whatever the input is, and that completing a word
  and the reset of \<open>restart\<close> keep, holds in the state any call returns and in the state
  the loop is in when the events given are used up.
\<close>

lemma run_preserves:
  assumes inp: "\<And>g s. P g \<Longrightarrow> P (g\<lparr>input := s\<rparr>)"
      and fin: "\<And>g g'. P g \<Longrightarrow> finish_word_event g = Inr g' \<Longrightarrow> P g'"
      and res: "\<And>g g'. P g \<Longrightarrow> restart_reset g = Inr g' \<Longrightarrow> P g'"
  shows "P (call_game c) \<Longrightarrow> outcome_game (run n width c evs out) = Some g' \<Longrightarrow> P g'"
proof (induction n arbitrary: c evs out g')
  case 0
  then show ?case by simp
next
  case (Suc n)
  have ret: "P g'" if "run n width c evs out = Returned g' evs' out'" and "P (call_game c)"
    for c evs out g' evs' out'
    using Suc.IH [OF that(2), of evs out g'] that(1) by simp
  have wt: "P g'" if "run n width c evs out = Waiting g' out'" and "P (call_game c)"
    for c evs out g' out'
    using Suc.IH [OF that(2), of evs out g'] that(1) by simp
  have og: "P g'" if "outcome_game (run n width c evs out) = Some g'" and "P (call_game c)"
    for c evs out g'
    using Suc.IH [OF that(2), of evs out g'] that(1) by simp
  have key_then_loop: "P g'"
    if "run n width (Handle_key g key) evs out = Returned g1 evs1 out1"
      and "outcome_game (run n width (Game_loop_while g1 t) evs1 out1) = Some g'" and "P g"
    for g key evs out g1 evs1 out1 t g'
  proof -
    from ret [OF that(1)] that(3) have "P g1" by simp
    with og [OF that(2)] show ?thesis by simp
  qed
  show ?case
  proof (cases c)
    case (Game_loop_while g t)
    with Suc.prems show ?thesis
      by (auto simp add: Let_def split: if_splits list.splits sum.splits outcome.splits
          dest: wt og key_then_loop)
  next
    case (Game_loop g)
    with Suc.prems show ?thesis
      by (auto split: sum.splits dest: og)
  next
    case (Handle_key g key)
    with Suc.prems show ?thesis
      by (auto split: if_splits sum.splits outcome.splits dest: ret wt intro: inp fin)
  next
    case (Restart g)
    with Suc.prems obtain g1 where r: "restart_reset g = Inr g1"
      and o: "outcome_game (run n width (Play g1) evs out) = Some g'"
      by (auto split: sum.splits)
    from Suc.prems(1) Restart have "P g" by simp
    from res [OF this r] have "P g1" .
    with og [OF o] show ?thesis by simp
  next
    case (Play g)
    with Suc.prems show ?thesis
      by (auto split: outcome.splits prod.splits option.splits dest: ret wt)
  qed
qed


lemma finish_word_event_demo:
  "finish_word_event demo_game =
     Inr (demo_game\<lparr>next_words := demo_queue @ [ustr ''dog''], wrong := [ustr ''cat''],
                     drawn := 11\<rparr>)"
  by (simp add: finish_word_event_def get_word_def choice_def demo_game_def ustr_def Let_def)

lemma restart_reset_demo:
  "restart_reset demo_game =
     Inr (demo_game\<lparr>next_words := demo_queue @ [ustr ''dog''], drawn := 20\<rparr>)"
  by (simp add: restart_reset_def QUEUE_SIZE_Suc get_word_def choice_def demo_game_def
      demo_queue_def)

lemma handle_key_space_demo:
  "run (Suc 0) 80 (Handle_key demo_game 32) [] [] =
     Returned (demo_game\<lparr>next_words := demo_queue @ [ustr ''dog''], wrong := [ustr ''cat''],
                          drawn := 11\<rparr>) [] []"
  by (simp add: is_ctrl_r_def KEY_BACKSPACE_def chr_def space_def finish_word_event_demo)

subsection \<open>The queue has ten words\<close>

text \<open>
  Claim C2. The queue \<open>next_words\<close> has exactly \<open>QUEUE_SIZE\<close> = 10 words after
  \<open>__init__\<close>, after \<open>_finish_word_event\<close> and after the reset of \<open>restart\<close> (each of
  which succeeds when the vocabulary is not empty), and every call of the game loop, of
  the key handler, of \<open>restart\<close> and of \<open>play\<close> started with ten queued words leaves ten.
\<close>

theorem queue_length_invariant:
  "(word_generator a = Inr ws \<and> ws \<noteq> [] \<longrightarrow>
      (\<exists>g. Game_init a r = Inr g \<and> length (next_words g) = QUEUE_SIZE)) \<and>
   (gen_words g \<noteq> [] \<and> length (next_words g) = QUEUE_SIZE \<longrightarrow>
      (\<exists>g'. finish_word_event g = Inr g' \<and> length (next_words g') = QUEUE_SIZE)) \<and>
   (gen_words g \<noteq> [] \<longrightarrow>
      (\<exists>g'. restart_reset g = Inr g' \<and> length (next_words g') = QUEUE_SIZE)) \<and>
   (length (next_words (call_game c)) = QUEUE_SIZE \<and>
    outcome_game (run n width c evs out) = Some g'' \<longrightarrow>
      length (next_words g'') = QUEUE_SIZE)"
proof -
  have init: "\<exists>g. Game_init a r = Inr g \<and> length (next_words g) = QUEUE_SIZE"
    if "word_generator a = Inr ws" and "ws \<noteq> []"
    using Game_init_total [OF that, of r] Game_init_spec [of a r] by blast
  have fin: "\<exists>g'. finish_word_event g = Inr g' \<and> length (next_words g') = QUEUE_SIZE"
    if "gen_words g \<noteq> []" and "length (next_words g) = QUEUE_SIZE"
  proof -
    from that(2) have "next_words g \<noteq> []" by (auto simp add: QUEUE_SIZE_def)
    from finish_word_event_total [OF that(1) this] obtain g' where
      "finish_word_event g = Inr g'" ..
    with finish_word_event_spec [OF this] that(2) show ?thesis by simp
  qed
  have res: "\<exists>g'. restart_reset g = Inr g' \<and> length (next_words g') = QUEUE_SIZE"
    if "gen_words g \<noteq> []"
    using restart_reset_total [OF that] restart_reset_spec [of g] by blast
  have loop: "length (next_words g'') = QUEUE_SIZE"
    if "length (next_words (call_game c)) = QUEUE_SIZE"
      and "outcome_game (run n width c evs out) = Some g''"
    using that(1) that(2)
  proof (rule run_preserves [where P = "\<lambda>g. length (next_words g) = QUEUE_SIZE", rotated 3])
    show "length (next_words (g\<lparr>input := s\<rparr>)) = QUEUE_SIZE"
      if "length (next_words g) = QUEUE_SIZE" for g s
      using that by simp
    show "length (next_words g') = QUEUE_SIZE"
      if "length (next_words g) = QUEUE_SIZE" and "finish_word_event g = Inr g'" for g g'
      using finish_word_event_spec [OF that(2)] that(1) by simp
    show "length (next_words g') = QUEUE_SIZE"
      if "length (next_words g) = QUEUE_SIZE" and "restart_reset g = Inr g'" for g g'
      using restart_reset_spec [OF that(2)] by simp
  qed
  from init fin res loop show ?thesis by blast
qed


theorem queue_length_invariant_witness:
  "word_generator demo_args = Inr [ustr ''cat'', ustr ''dog'', ustr ''bird''] \<and>
   (\<exists>g. Game_init demo_args (\<lambda>n. n) = Inr g \<and> length (next_words g) = QUEUE_SIZE) \<and>
   gen_words demo_game \<noteq> [] \<and> length (next_words demo_game) = QUEUE_SIZE \<and>
   (\<exists>g'. finish_word_event demo_game = Inr g' \<and> length (next_words g') = QUEUE_SIZE) \<and>
   (\<exists>g'. restart_reset demo_game = Inr g' \<and> length (next_words g') = QUEUE_SIZE) \<and>
   outcome_game (run (Suc 0) 80 (Handle_key demo_game 32) [] []) =
     Some (demo_game\<lparr>next_words := demo_queue @ [ustr ''dog''], wrong := [ustr ''cat''],
                       drawn := 11\<rparr>) \<and>
   length (next_words (demo_game\<lparr>next_words := demo_queue @ [ustr ''dog''],
                                  wrong := [ustr ''cat''], drawn := 11\<rparr>)) = QUEUE_SIZE"
proof -
  have a: "[ustr ''cat'', ustr ''dog'', ustr ''bird''] \<noteq> []" by simp
  have b: "gen_words demo_game \<noteq> []" "length (next_words demo_game) = QUEUE_SIZE"
    by (simp_all add: demo_game_def demo_queue_def QUEUE_SIZE_def)
  have c: "length (next_words (call_game (Handle_key demo_game 32))) = QUEUE_SIZE"
    using b(2) by simp
  have d: "outcome_game (run (Suc 0) 80 (Handle_key demo_game 32) [] []) =
     Some (demo_game\<lparr>next_words := demo_queue @ [ustr ''dog''], wrong := [ustr ''cat''],
                       drawn := 11\<rparr>)"
    by (simp only: handle_key_space_demo outcome_game.simps)
  from queue_length_invariant
         [of demo_args "[ustr ''cat'', ustr ''dog'', ustr ''bird'']" "\<lambda>n. n" demo_game
             "Handle_key demo_game 32" "Suc 0" 80 "[]" "[]"
             "demo_game\<lparr>next_words := demo_queue @ [ustr ''dog''], wrong := [ustr ''cat''],
                          drawn := 11\<rparr>"]
       word_generator_demo a b c d
  show ?thesis by blast
qed

subsection \<open>Queued words come from the filtered vocabulary\<close>

text \<open>
  Claim C9. In the session \<open>__init__\<close> builds, every vocabulary word is stripped and of
  a length within the bounds, and every queued word is a vocabulary word; completing a
  word, the reset of \<open>restart\<close> and every call of the game loop, the key handler,
  \<open>restart\<close> and \<open>play\<close> keep this. So in every state the session reaches, each queued
  word is stripped and its length lies between \<open>min_length\<close> and \<open>max_length\<close>.
\<close>

theorem queue_words_from_vocabulary:
  "(Game_init a r = Inr g0 \<longrightarrow> vocab_inv a g0) \<and>
   (vocab_inv a g \<and> finish_word_event g = Inr g1 \<longrightarrow> vocab_inv a g1) \<and>
   (vocab_inv a g \<and> restart_reset g = Inr g2 \<longrightarrow> vocab_inv a g2) \<and>
   (vocab_inv a (call_game c) \<and> outcome_game (run n width c evs out) = Some g3 \<longrightarrow>
      vocab_inv a g3) \<and>
   (vocab_inv a g \<longrightarrow>
      (\<forall>w \<in> set (next_words g).
         w \<in> set (gen_words g) \<and> strip w = w \<and>
         min_length a \<le> int (length w) \<and> int (length w) \<le> max_length a))"
proof -
  have init: "vocab_inv a g0" if "Game_init a r = Inr g0"
    using Game_init_spec [OF that] word_generator_ok [of a "gen_words g0"]
    by (simp add: vocab_inv_def)
  have fin: "vocab_inv a g'" if "vocab_inv a g" and "finish_word_event g = Inr g'" for g g'
    using finish_word_event_spec [OF that(2)] that(1) by (auto simp add: vocab_inv_def)
  have res: "vocab_inv a g'" if "vocab_inv a g" and "restart_reset g = Inr g'" for g g'
    using restart_reset_spec [OF that(2)] that(1) by (auto simp add: vocab_inv_def)
  have inp: "vocab_inv a (g\<lparr>input := s\<rparr>)" if "vocab_inv a g" for g s
    using that by (simp add: vocab_inv_def)
  have loop: "vocab_inv a g3"
    if "vocab_inv a (call_game c)" and "outcome_game (run n width c evs out) = Some g3"
    using inp fin res that by (rule run_preserves [where P = "vocab_inv a"])
  have words: "\<forall>w \<in> set (next_words g).
         w \<in> set (gen_words g) \<and> strip w = w \<and>
         min_length a \<le> int (length w) \<and> int (length w) \<le> max_length a"
    if "vocab_inv a g"
    using that by (auto simp add: vocab_inv_def word_ok_def)
  from init fin res loop words show ?thesis by blast
qed

theorem queue_words_from_vocabulary_witness:
  "Game_init demo_args (\<lambda>n. n) = Inr demo_game \<and>
   finish_word_event demo_game =
     Inr (demo_game\<lparr>next_words := demo_queue @ [ustr ''dog''], wrong := [ustr ''cat''],
                     drawn := 11\<rparr>) \<and>
   restart_reset demo_game =
     Inr (demo_game\<lparr>next_words := demo_queue @ [ustr ''dog''], drawn := 20\<rparr>) \<and>
   outcome_game (run (Suc 0) 80 (Handle_key demo_game 32) [] []) =
     Some (demo_game\<lparr>next_words := demo_queue @ [ustr ''dog''], wrong := [ustr ''cat''],
                       drawn := 11\<rparr>) \<and>
   ustr ''bird'' \<in> set (next_words (demo_game\<lparr>next_words := demo_queue @ [ustr ''dog''],
                                                  wrong := [ustr ''cat''], drawn := 11\<rparr>)) \<and>
   ustr ''bird'' \<in> set (gen_words demo_game) \<and>
   strip (ustr ''bird'') = ustr ''bird'' \<and>
   min_length demo_args \<le> int (length (ustr ''bird'')) \<and>
   int (length (ustr ''bird'')) \<le> max_length demo_args"
proof -
  let ?g1 = "demo_game\<lparr>next_words := demo_queue @ [ustr ''dog''], wrong := [ustr ''cat''],
                        drawn := 11\<rparr>"
  let ?g2 = "demo_game\<lparr>next_words := demo_queue @ [ustr ''dog''], drawn := 20\<rparr>"
  have d: "outcome_game (run (Suc 0) 80 (Handle_key demo_game 32) [] []) = Some ?g1"
    by (simp only: handle_key_space_demo outcome_game.simps)
  have c: "call_game (Handle_key demo_game 32) = demo_game" by simp
  have b: "ustr ''bird'' \<in> set (next_words ?g1)"
    by (simp add: demo_queue_def)
  note t = queue_words_from_vocabulary
         [of demo_args "\<lambda>n. n" demo_game demo_game ?g1 ?g2 "Handle_key demo_game 32"
             "Suc 0" 80 "[]" "[]" ?g1]
  note t1 = queue_words_from_vocabulary
         [of demo_args "\<lambda>n. n" demo_game ?g1 ?g1 ?g2 "Handle_key demo_game 32"
             "Suc 0" 80 "[]" "[]" ?g1]
  from t Game_init_demo have i: "vocab_inv demo_args demo_game" by blast
  from t i c d have f: "vocab_inv demo_args ?g1" by simp
  from t1 f b have w: "ustr ''bird'' \<in> set (gen_words ?g1) \<and>
      strip (ustr ''bird'') = ustr ''bird'' \<and>
      min_length demo_args \<le> int (length (ustr ''bird'')) \<and>
      int (length (ustr ''bird'')) \<le> max_length demo_args"
    by blast
  from Game_init_demo finish_word_event_demo restart_reset_demo d b w
  show ?thesis by simp
qed

end
